theory Spec2Isabelle
  imports Main
begin

section \<open>The object store\<close>

text \<open>
  The program is a handful of TypeScript classes wired together by an inversify
  \<^verbatim>\<open>Container\<close> and served by inversify-express-utils on Express. Several statements about
  it are about object identity (the same registry handle, the same instance), so objects
  live in an explicit store: a list of objects, an object's address being its index.
  Allocation appends, so a new object never has the address of an old one.
\<close>

type_synonym addr = nat

text \<open>
  The injection tokens of \<^verbatim>\<open>types.ts\<close>:
  \<^verbatim>\<open>
  const TYPES = {
      Warrior: Symbol.for("Warrior"),
      Weapon: Symbol.for("Weapon"),
      ThrowableWeapon: Symbol.for("ThrowableWeapon"),
      WarriorController: Symbol.for("WarriorController")
  };
  \<close>
  and the two tokens \<^verbatim>\<open>TYPE.Controller\<close> and \<^verbatim>\<open>TYPE.HttpContext\<close> under which
  inversify-express-utils keeps its own bindings in the container it is given.
\<close>

datatype serviceIdentifier =
    TYPES_Warrior
  | TYPES_Weapon
  | TYPES_ThrowableWeapon
  | TYPES_WarriorController
  | TYPE_Controller
  | TYPE_HttpContext

definition TYPES :: "serviceIdentifier list" where
  "TYPES = [TYPES_Warrior, TYPES_Weapon, TYPES_ThrowableWeapon, TYPES_WarriorController]"

text \<open>The classes of the program, as the values a binding can point to.\<close>

datatype newable = Ninja | Katana | Shuriken | WarriorController | InitController

fun name :: "newable \<Rightarrow> string" where
  "name Ninja = ''Ninja''"
| "name Katana = ''Katana''"
| "name Shuriken = ''Shuriken''"
| "name WarriorController = ''WarriorController''"
| "name InitController = ''InitController''"

text \<open>
  A binding of the container. \<^verbatim>\<open>bind(id).to(C)\<close> records the identifier and the class; the
  binding's scope is the container's default unless \<^verbatim>\<open>.inSingletonScope()\<close> or
  \<^verbatim>\<open>.inTransientScope()\<close> is chained, and a singleton binding remembers the instance it
  has built in \<open>cache\<close>. \<^verbatim>\<open>bind(id).toConstantValue(v)\<close> makes a binding without a class,
  singleton, with \<open>v\<close> in its cache from the start. \<^verbatim>\<open>.whenTargetNamed(n)\<close> restricts a
  binding to the requests that ask for the name \<open>n\<close>.
\<close>

datatype scope = Transient | Singleton

record binding =
  serviceIdentifier :: serviceIdentifier
  implementationType :: "newable option"
  scope :: scope
  cache :: "addr option"
  named :: "string option"

text \<open>
  What the store holds: containers, instances of the five classes, and the empty object
  \<^verbatim>\<open>{}\<close>. A \<^verbatim>\<open>Ninja\<close> has the two injected properties \<^verbatim>\<open>_katana\<close> and \<^verbatim>\<open>_shuriken\<close>, a
  \<^verbatim>\<open>WarriorController\<close> the constructor-injected \<^verbatim>\<open>warrior\<close>; each field is a reference.
\<close>

datatype object =
    Container (defaultScope: scope) (bindings: "binding list")
  | NinjaObject addr addr
  | KatanaObject
  | ShurikenObject
  | WarriorControllerObject addr
  | InitControllerObject
  | EmptyObject

type_synonym store = "object list"

datatype error =
    NoMatchingBindings serviceIdentifier
  | AmbiguousMatch serviceIdentifier
  | CircularDependency serviceIdentifier
  | TypeError string
  | DuplicatedControllerName string
  | NoControllersFound
  | Fault string

definition lookup :: "store \<Rightarrow> addr \<Rightarrow> object option" where
  "lookup h a = (if a < length h then Some (h ! a) else None)"

definition alloc :: "object \<Rightarrow> store \<Rightarrow> addr \<times> store" where
  "alloc obj h = (length h, h @ [obj])"

section \<open>The container\<close>

text \<open>
  The operations of inversify's \<^verbatim>\<open>Container\<close> that the program and the server call.
  \<^verbatim>\<open>new Container()\<close> is given no options, so its default scope is inversify's default,
  transient. \<^verbatim>\<open>bind(id).to(C)\<close> appends a binding in the container's default scope; the
  program chains nothing after \<^verbatim>\<open>to\<close>, the server chains \<^verbatim>\<open>whenTargetNamed\<close>.
\<close>

definition Container_new :: "store \<Rightarrow> addr \<times> store" where
  "Container_new h = alloc (Container Transient []) h"

definition bind_to :: "addr \<Rightarrow> serviceIdentifier \<Rightarrow> newable \<Rightarrow> store \<Rightarrow> error + store" where
  "bind_to c sid impl h =
     (case lookup h c of
        Some (Container dflt bs) \<Rightarrow>
          Inr (h[c := Container dflt
                   (bs @ [\<lparr>serviceIdentifier = sid, implementationType = Some impl,
                           scope = dflt, cache = None, named = None\<rparr>])])
      | _ \<Rightarrow> Inl (TypeError ''bind''))"

definition bind_to_whenTargetNamed ::
  "addr \<Rightarrow> serviceIdentifier \<Rightarrow> newable \<Rightarrow> string \<Rightarrow> store \<Rightarrow> error + store" where
  "bind_to_whenTargetNamed c sid impl n h =
     (case lookup h c of
        Some (Container dflt bs) \<Rightarrow>
          Inr (h[c := Container dflt
                   (bs @ [\<lparr>serviceIdentifier = sid, implementationType = Some impl,
                           scope = dflt, cache = None, named = Some n\<rparr>])])
      | _ \<Rightarrow> Inl (TypeError ''bind''))"

definition bind_toConstantValue :: "addr \<Rightarrow> serviceIdentifier \<Rightarrow> addr \<Rightarrow> store \<Rightarrow> error + store" where
  "bind_toConstantValue c sid v h =
     (case lookup h c of
        Some (Container dflt bs) \<Rightarrow>
          Inr (h[c := Container dflt
                   (bs @ [\<lparr>serviceIdentifier = sid, implementationType = None,
                           scope = Singleton, cache = Some v, named = None\<rparr>])])
      | _ \<Rightarrow> Inl (TypeError ''bind''))"

text \<open>
  \<^verbatim>\<open>isBound(id)\<close> and \<^verbatim>\<open>isBoundNamed(id, n)\<close>: whether the container has a binding of the
  identifier, and one that a request for the name \<open>n\<close> may use (a binding without a name
  restriction serves every request).
\<close>

definition isBound :: "addr \<Rightarrow> serviceIdentifier \<Rightarrow> store \<Rightarrow> bool" where
  "isBound c sid h =
     (case lookup h c of
        Some (Container dflt bs) \<Rightarrow> filter (\<lambda>b. serviceIdentifier b = sid) bs \<noteq> []
      | _ \<Rightarrow> False)"

definition isBoundNamed :: "addr \<Rightarrow> serviceIdentifier \<Rightarrow> string \<Rightarrow> store \<Rightarrow> bool" where
  "isBoundNamed c sid n h =
     (case lookup h c of
        Some (Container dflt bs) \<Rightarrow>
          filter (\<lambda>b. serviceIdentifier b = sid \<and> (named b = None \<or> named b = Some n)) bs \<noteq> []
      | _ \<Rightarrow> False)"

text \<open>
  Resolution, \<^verbatim>\<open>container.get(id)\<close>. The container looks up the bindings of the
  identifier that a request without a name may use: none is an error, more than one is
  an error, and the single one is activated. A singleton binding that has a cached
  instance yields it; otherwise the class is instantiated, which first resolves what the
  class injects, and a singleton binding then caches the new instance. An identifier
  that occurs among its own ancestors in the chain of requests is a circular dependency.

  What each class injects is read off its decorators:
  \<^verbatim>\<open>
  @injectable()
  class Ninja implements Warrior {
      @inject(TYPES.Weapon) private _katana: Weapon;
      @inject(TYPES.ThrowableWeapon) private _shuriken: ThrowableWeapon;
      ...
  }
  export class WarriorController {
      constructor(@inject(TYPES.Warrior) private warrior: Warrior) {}
      ...
  }
  export class InitController {
      constructor() { }
      ...
  }
  \<close>
\<close>

definition identifiers :: "serviceIdentifier list" where
  "identifiers = TYPES @ [TYPE_Controller, TYPE_HttpContext]"

definition pending :: "serviceIdentifier list \<Rightarrow> nat" where
  "pending chain = length (filter (\<lambda>s. s \<notin> set chain) identifiers)"

definition remember :: "addr \<Rightarrow> binding \<Rightarrow> addr \<Rightarrow> store \<Rightarrow> store" where
  "remember c b a h =
     (case lookup h c of
        Some (Container dflt bs) \<Rightarrow>
          h[c := Container dflt (map (\<lambda>b'. if b' = b then b'\<lparr>cache := Some a\<rparr> else b') bs)]
      | _ \<Rightarrow> h)"

function resolve :: "addr \<Rightarrow> serviceIdentifier list \<Rightarrow> serviceIdentifier \<Rightarrow> store
                       \<Rightarrow> error + addr \<times> store"
  and activate :: "addr \<Rightarrow> serviceIdentifier list \<Rightarrow> binding \<Rightarrow> store
                       \<Rightarrow> error + addr \<times> store"
  and instantiate :: "addr \<Rightarrow> serviceIdentifier list \<Rightarrow> newable \<Rightarrow> store
                       \<Rightarrow> error + addr \<times> store"
where
  "resolve c chain sid h =
     (if sid \<in> set chain then Inl (CircularDependency sid)
      else case lookup h c of
        Some (Container dflt bs) \<Rightarrow>
          (case filter (\<lambda>b. serviceIdentifier b = sid \<and> named b = None) bs of
             [] \<Rightarrow> Inl (NoMatchingBindings sid)
           | [b] \<Rightarrow> activate c (sid # chain) b h
           | _ \<Rightarrow> Inl (AmbiguousMatch sid))
      | _ \<Rightarrow> Inl (TypeError ''get''))"
| "activate c chain b h =
     (case (if scope b = Singleton then cache b else None) of
        Some a \<Rightarrow> Inr (a, h)
      | None \<Rightarrow>
          (case implementationType b of
             None \<Rightarrow> Inl (TypeError ''new'')
           | Some impl \<Rightarrow>
               (case instantiate c chain impl h of
                  Inl e \<Rightarrow> Inl e
                | Inr (a, h1) \<Rightarrow>
                    Inr (a, if scope b = Singleton then remember c b a h1 else h1))))"
| "instantiate c chain Ninja h =
     (case resolve c chain TYPES_Weapon h of
        Inl e \<Rightarrow> Inl e
      | Inr (k, h1) \<Rightarrow>
          (case resolve c chain TYPES_ThrowableWeapon h1 of
             Inl e \<Rightarrow> Inl e
           | Inr (s, h2) \<Rightarrow> Inr (alloc (NinjaObject k s) h2)))"
| "instantiate c chain Katana h = Inr (alloc KatanaObject h)"
| "instantiate c chain Shuriken h = Inr (alloc ShurikenObject h)"
| "instantiate c chain WarriorController h =
     (case resolve c chain TYPES_Warrior h of
        Inl e \<Rightarrow> Inl e
      | Inr (w, h1) \<Rightarrow> Inr (alloc (WarriorControllerObject w) h1))"
| "instantiate c chain InitController h = Inr (alloc InitControllerObject h)"
  by pat_completeness auto

termination
proof -
  have shrink: "pending (sid # chain) < pending chain" if "sid \<notin> set chain" for sid chain
    using that
    by (cases sid)
       (auto simp: pending_def identifiers_def TYPES_def less_Suc_eq_le
             intro: le_trans [OF length_filter_le])
  show ?thesis
    by (relation "measures
          [\<lambda>x. case x of Inl (c, chain, sid, h) \<Rightarrow> pending chain
                       | Inr (Inl (c, chain, b, h)) \<Rightarrow> pending chain
                       | Inr (Inr (c, chain, cls, h)) \<Rightarrow> pending chain,
           \<lambda>x. case x of Inl _ \<Rightarrow> 0 | Inr (Inl _) \<Rightarrow> 2 | Inr (Inr _) \<Rightarrow> Suc 0]")
       (auto simp: shrink)
qed

definition get :: "addr \<Rightarrow> serviceIdentifier \<Rightarrow> store \<Rightarrow> error + addr \<times> store" where
  "get c sid h = resolve c [] sid h"

text \<open>
  \<^verbatim>\<open>container.getAll(id)\<close> activates every binding of the identifier, whatever name it is
  restricted to, in the order of the bindings.
\<close>

fun activateAll :: "addr \<Rightarrow> serviceIdentifier list \<Rightarrow> binding list \<Rightarrow> store
                      \<Rightarrow> error + addr list \<times> store" where
  "activateAll c chain [] h = Inr ([], h)"
| "activateAll c chain (b # bs) h =
     (case activate c chain b h of
        Inl e \<Rightarrow> Inl e
      | Inr (a, h1) \<Rightarrow>
          (case activateAll c chain bs h1 of
             Inl e \<Rightarrow> Inl e
           | Inr (as, h2) \<Rightarrow> Inr (a # as, h2)))"

definition getAll :: "addr \<Rightarrow> serviceIdentifier \<Rightarrow> store \<Rightarrow> error + addr list \<times> store" where
  "getAll c sid h =
     (case lookup h c of
        Some (Container dflt bs) \<Rightarrow>
          (case filter (\<lambda>b. serviceIdentifier b = sid) bs of
             [] \<Rightarrow> Inl (NoMatchingBindings sid)
           | b # bs' \<Rightarrow> activateAll c [sid] (b # bs') h)
      | _ \<Rightarrow> Inl (TypeError ''getAll''))"

section \<open>The registry: \<^verbatim>\<open>DIContainer\<close>\<close>

text \<open>
  \<^verbatim>\<open>
  export class DIContainer {
      private static container: Container;

      public static resolveDependencies(): Container {
          if (!this.container) {
              this.container = new Container();
              this.registerDependencies();
          }
          return this.container;
      }

      private static registerDependencies(): void {
          this.container.bind<Warrior>(TYPES.Warrior).to(Ninja);
          this.container.bind<Weapon>(TYPES.Weapon).to(Katana);
          this.container.bind<ThrowableWeapon>(TYPES.ThrowableWeapon).to(Shuriken);
          this.container.bind<WarriorController>(TYPES.WarriorController).to(WarriorController);
      }
  }
  \<close>
  The state of a process is the static field and the store. The field is unset
  (\<open>None\<close>) until the first resolution; a container is an object, hence truthy, so
  \<^verbatim>\<open>!this.container\<close> holds exactly when the field is unset.
\<close>

record process =
  DIContainer_container :: "addr option"
  heap :: store

definition init :: process where
  "init = \<lparr>DIContainer_container = None, heap = []\<rparr>"

definition registerDependencies :: "process \<Rightarrow> error + process" where
  "registerDependencies p =
     (case DIContainer_container p of
        None \<Rightarrow> Inl (TypeError ''bind'')
      | Some c \<Rightarrow>
          (case bind_to c TYPES_Warrior Ninja (heap p) of
             Inl e \<Rightarrow> Inl e
           | Inr h1 \<Rightarrow>
          (case bind_to c TYPES_Weapon Katana h1 of
             Inl e \<Rightarrow> Inl e
           | Inr h2 \<Rightarrow>
          (case bind_to c TYPES_ThrowableWeapon Shuriken h2 of
             Inl e \<Rightarrow> Inl e
           | Inr h3 \<Rightarrow>
          (case bind_to c TYPES_WarriorController WarriorController h3 of
             Inl e \<Rightarrow> Inl e
           | Inr h4 \<Rightarrow> Inr (p\<lparr>heap := h4\<rparr>))))))"

definition resolveDependencies :: "process \<Rightarrow> error + addr \<times> process" where
  "resolveDependencies p =
     (case (if DIContainer_container p = None
            then (case Container_new (heap p) of
                    (c, h) \<Rightarrow> registerDependencies \<lparr>DIContainer_container = Some c, heap = h\<rparr>)
            else Inr p) of
        Inl e \<Rightarrow> Inl e
      | Inr p' \<Rightarrow>
          (case DIContainer_container p' of
             Some c \<Rightarrow> Inr (c, p')
           | None \<Rightarrow> Inl (TypeError ''container'')))"

section \<open>The entities\<close>

text \<open>
  Modelled from the spec: the file of the entities is not among the sources, which show
  \<^verbatim>\<open>Katana\<close> and \<^verbatim>\<open>Shuriken\<close> only as the classes bound to \<^verbatim>\<open>Weapon\<close> and
  \<^verbatim>\<open>ThrowableWeapon\<close>. The spec has them as objects without state whose one method
  returns a fixed string literal, "cut!" for the one and "hit!" for the other.
\<close>

definition Katana_hit :: "error + string" where
  "Katana_hit = Inr ''cut!''"

definition Shuriken_throw :: "error + string" where
  "Shuriken_throw = Inr ''hit!''"

text \<open>
  A call through an interface is dispatched on the class of the object the reference
  points to; calling a method the object does not have is a \<^verbatim>\<open>TypeError\<close>.
\<close>

definition Weapon_hit :: "store \<Rightarrow> addr \<Rightarrow> error + string" where
  "Weapon_hit h a =
     (case lookup h a of
        Some KatanaObject \<Rightarrow> Katana_hit
      | _ \<Rightarrow> Inl (TypeError ''hit''))"

definition ThrowableWeapon_throw :: "store \<Rightarrow> addr \<Rightarrow> error + string" where
  "ThrowableWeapon_throw h a =
     (case lookup h a of
        Some ShurikenObject \<Rightarrow> Shuriken_throw
      | _ \<Rightarrow> Inl (TypeError ''throw''))"

text \<open>
  The class \<^verbatim>\<open>Ninja\<close>, as the README of the repository gives it:
  \<^verbatim>\<open>
  class Ninja implements Warrior {
      @inject(TYPES.Weapon) private _katana: Weapon;
      @inject(TYPES.ThrowableWeapon) private _shuriken: ThrowableWeapon;

      public fight() { return this._katana.hit(); }
      public sneak() { return this._shuriken.throw(); }
  }
  \<close>
  The two arguments are the fields of the receiver.
\<close>

definition Ninja_fight :: "store \<Rightarrow> addr \<Rightarrow> addr \<Rightarrow> error + string" where
  "Ninja_fight h katana shuriken = Weapon_hit h katana"

definition Ninja_sneak :: "store \<Rightarrow> addr \<Rightarrow> addr \<Rightarrow> error + string" where
  "Ninja_sneak h katana shuriken = ThrowableWeapon_throw h shuriken"

definition Warrior_fight :: "store \<Rightarrow> addr \<Rightarrow> error + string" where
  "Warrior_fight h a =
     (case lookup h a of
        Some (NinjaObject katana shuriken) \<Rightarrow> Ninja_fight h katana shuriken
      | _ \<Rightarrow> Inl (TypeError ''fight''))"

definition Warrior_sneak :: "store \<Rightarrow> addr \<Rightarrow> error + string" where
  "Warrior_sneak h a =
     (case lookup h a of
        Some (NinjaObject katana shuriken) \<Rightarrow> Ninja_sneak h katana shuriken
      | _ \<Rightarrow> Inl (TypeError ''sneak''))"

section \<open>The controllers\<close>

text \<open>
  \<^verbatim>\<open>
  @controller("/warrior")
  export class WarriorController {
      constructor(@inject(TYPES.Warrior) private warrior: Warrior) {}

      @httpGet("/fight")
      public fight(): string {
          return this.warrior.fight();
      }

      @httpGet("/sneak")
      public sneak(): string {
          return this.warrior.sneak();
      }
  }

  @controller("/")
  export class InitController {
      constructor() { }

      @httpGet("")
      public fight(): string {
          return "base route. Hello World Fellas";
      }
  }
  \<close>
\<close>

definition WarriorController_fight :: "store \<Rightarrow> addr \<Rightarrow> error + string" where
  "WarriorController_fight h warrior = Warrior_fight h warrior"

definition WarriorController_sneak :: "store \<Rightarrow> addr \<Rightarrow> error + string" where
  "WarriorController_sneak h warrior = Warrior_sneak h warrior"

definition InitController_fight :: "error + string" where
  "InitController_fight = Inr ''base route. Hello World Fellas''"

datatype methodName = fight | sneak

definition invoke :: "store \<Rightarrow> addr \<Rightarrow> methodName \<Rightarrow> error + string" where
  "invoke h a key =
     (case lookup h a of
        Some (WarriorControllerObject warrior) \<Rightarrow>
          (case key of
             fight \<Rightarrow> WarriorController_fight h warrior
           | sneak \<Rightarrow> WarriorController_sneak h warrior)
      | Some InitControllerObject \<Rightarrow>
          (case key of
             fight \<Rightarrow> InitController_fight
           | sneak \<Rightarrow> Inl (TypeError ''sneak''))
      | _ \<Rightarrow> Inl (TypeError ''controller''))"

section \<open>The server\<close>

text \<open>
  \<^verbatim>\<open>
  export class App {
      public static async createApp(): Promise<express.Application> {
          const container = DIContainer.resolveDependencies();

          const server = new InversifyExpressServer(container);

          server.setConfig((app) => {
              app.use(express.json());
              app.use(express.urlencoded({ extended: true }));
          });

          const app = server.build();
          return app;
      }
  }
  \<close>
  \<^verbatim>\<open>build\<close> works on the container it was given, the registry itself. It binds an empty
  object under \<^verbatim>\<open>TYPE.HttpContext\<close>; it binds every controller class that the decorators
  have recorded under \<^verbatim>\<open>TYPE.Controller\<close>, restricted to the name of the class, and throws if
  that name is bound already; it then has the container build all controllers once, to
  read their routes. The decorator puts each class in front of those recorded before it,
  and \<^verbatim>\<open>app.ts\<close> loads the warrior's controller before the other, so \<^verbatim>\<open>InitController\<close> comes
  first.
\<close>

definition controllers :: "newable list" where
  "controllers = [InitController, WarriorController]"

fun bindControllers :: "addr \<Rightarrow> newable list \<Rightarrow> store \<Rightarrow> error option \<times> store" where
  "bindControllers c [] h = (None, h)"
| "bindControllers c (ctl # rest) h =
     (if isBoundNamed c TYPE_Controller (name ctl) h
      then (Some (DuplicatedControllerName (name ctl)), h)
      else case bind_to_whenTargetNamed c TYPE_Controller ctl (name ctl) h of
             Inl e \<Rightarrow> (Some e, h)
           | Inr h1 \<Rightarrow> bindControllers c rest h1)"

definition getControllersFromContainer :: "addr \<Rightarrow> store \<Rightarrow> error + addr list \<times> store" where
  "getControllersFromContainer c h =
     (if isBound c TYPE_Controller h then getAll c TYPE_Controller h
      else Inl NoControllersFound)"

definition build :: "addr \<Rightarrow> store \<Rightarrow> error option \<times> store" where
  "build c h =
     (case alloc EmptyObject h of
        (ctx, h1) \<Rightarrow>
          (case bind_toConstantValue c TYPE_HttpContext ctx h1 of
             Inl e \<Rightarrow> (Some e, h1)
           | Inr h2 \<Rightarrow>
               (case bindControllers c controllers h2 of
                  (Some e, h3) \<Rightarrow> (Some e, h3)
                | (None, h3) \<Rightarrow>
                    (case getControllersFromContainer c h3 of
                       Inl e \<Rightarrow> (Some e, h3)
                     | Inr (ctls, h4) \<Rightarrow> (None, h4)))))"

text \<open>
  The application that \<^verbatim>\<open>createApp\<close> returns is identified with the container it serves
  from. A throw inside \<^verbatim>\<open>createApp\<close> rejects its promise; what had been bound by then stays
  bound.
\<close>

definition createApp :: "process \<Rightarrow> (error + addr) \<times> process" where
  "createApp p =
     (case resolveDependencies p of
        Inl e \<Rightarrow> (Inl e, p)
      | Inr (container, p1) \<Rightarrow>
          (case build container (heap p1) of
             (Some e, h) \<Rightarrow> (Inl e, p1\<lparr>heap := h\<rparr>)
           | (None, h) \<Rightarrow> (Inr container, p1\<lparr>heap := h\<rparr>)))"

section \<open>Requests\<close>

text \<open>
  A request is its method, the path of its URL and its body. The two body parsers that
  \<^verbatim>\<open>setConfig\<close> installs run before the routes, on every request. What they make of a body
  is theirs to decide, not the program's, so a request carries their verdict: it has no
  body (\<open>Absent\<close>: the parsers pass it on), it has a body that they accept or do not look
  at (\<open>Accepted\<close>), or it has a body that one of them refuses, with the status of the
  refusal (\<open>Refused\<close>: 400 for JSON text that does not parse, 413 for a body that is too
  large, 415 for a character set or encoding that is not supported). The method
  \<^verbatim>\<open>OPTIONS\<close>, which Express answers by itself, is not among the methods.
\<close>

datatype httpMethod = GET | HEAD | POST | PUT | PATCH | DELETE

datatype refusal = BadRequest | PayloadTooLarge | UnsupportedMediaType

datatype payload = Absent | Accepted | Refused refusal

record request =
  httpMethod :: httpMethod
  path :: string
  payload :: payload

text \<open>
  The decorators register one route per handler, its path the controller's path
  followed by the handler's, in the order in which \<^verbatim>\<open>build\<close> went through the controllers.
  Express matches the path of a request against a route without regard to the case of
  letters and with or without one slash at the end.
\<close>

record route =
  verb :: httpMethod
  pattern :: string
  controller :: newable
  key :: methodName

definition routes :: "route list" where
  "routes =
     [\<lparr>verb = GET, pattern = ''/'' @ [], controller = InitController, key = fight\<rparr>,
      \<lparr>verb = GET, pattern = ''/warrior'' @ ''/fight'', controller = WarriorController, key = fight\<rparr>,
      \<lparr>verb = GET, pattern = ''/warrior'' @ ''/sneak'', controller = WarriorController, key = sneak\<rparr>]"

definition toLowerCase :: "char \<Rightarrow> char" where
  "toLowerCase ch =
     (case map_of (zip ''ABCDEFGHIJKLMNOPQRSTUVWXYZ'' ''abcdefghijklmnopqrstuvwxyz'') ch of
        None \<Rightarrow> ch
      | Some l \<Rightarrow> l)"

definition pathMatches :: "string \<Rightarrow> string \<Rightarrow> bool" where
  "pathMatches pat p =
     (if pat \<noteq> [] \<and> last pat = CHR ''/''
      then map toLowerCase p = map toLowerCase pat
         \<or> map toLowerCase p = map toLowerCase (butlast pat)
      else map toLowerCase p = map toLowerCase pat
         \<or> map toLowerCase p = map toLowerCase pat @ ''/'')"

text \<open>
  A response is \<open>Send v\<close>, status 200 with body \<open>v\<close>; the refusal of a body parser, with its
  status; Express's 404 for a request that matches no route; or Express's 500 for an
  exception in a handler.

  For a request that matches a route, inversify-express-utils has the container build
  the controller (the binding that \<^verbatim>\<open>build\<close> made for the class is transient, like
  all bindings of this container, so a new controller is built for every request),
  calls the handler and, the handler having returned a string, passes that string to
  \<^verbatim>\<open>res.send\<close>. A \<^verbatim>\<open>HEAD\<close> request is served by the route of \<^verbatim>\<open>GET\<close> and answered without the
  body.
\<close>

datatype response = Send string | Rejected refusal | NotFound | InternalServerError error

fun code :: "refusal \<Rightarrow> nat" where
  "code BadRequest = 400"
| "code PayloadTooLarge = 413"
| "code UnsupportedMediaType = 415"

fun status :: "response \<Rightarrow> nat" where
  "status (Send v) = 200"
| "status (Rejected r) = code r"
| "status NotFound = 404"
| "status (InternalServerError e) = 500"

definition handler :: "addr \<Rightarrow> newable \<Rightarrow> methodName \<Rightarrow> store \<Rightarrow> response \<times> store" where
  "handler c ctl k h =
     (case instantiate c [] ctl h of
        Inl e \<Rightarrow> (InternalServerError e, h)
      | Inr (a, h1) \<Rightarrow>
          (case invoke h1 a k of
             Inl e \<Rightarrow> (InternalServerError e, h1)
           | Inr v \<Rightarrow> (Send v, h1)))"

definition handleRequest :: "addr \<Rightarrow> request \<Rightarrow> store \<Rightarrow> response \<times> store" where
  "handleRequest c req h =
     (case payload req of
        Refused r \<Rightarrow> (Rejected r, h)
      | _ \<Rightarrow>
          (case find (\<lambda>r. verb r = (if httpMethod req = HEAD then GET else httpMethod req)
                          \<and> pathMatches (pattern r) (path req)) routes of
             None \<Rightarrow> (NotFound, h)
           | Some r \<Rightarrow>
               (case handler c (controller r) (key r) h of
                  (Send v, h1) \<Rightarrow> (if httpMethod req = HEAD then Send [] else Send v, h1)
                | (res, h1) \<Rightarrow> (res, h1))))"

section \<open>Startup\<close>

text \<open>
  \<^verbatim>\<open>
  const PORT = 3000;

  (async () => {
      try {
          const app = await App.createApp();

          app.listen(PORT, () => {
              console.log(`Server is running on http://localhost:${PORT}`);
          });
      } catch (error) {
          console.error("Error starting server:", error);
          process.exit(1);
      }
  })();
  \<close>
  Whether the port can be bound is decided outside the program; the environment says
  whether it cannot, and with what error. \<^verbatim>\<open>app.listen\<close>, called with the fixed port and a
  callback, does not throw; it returns at once and is not awaited:
  when the port is bound the callback runs and logs; when it cannot be bound the server
  emits an \<^verbatim>\<open>error\<close> event, later, to which nothing listens. By then the \<^verbatim>\<open>try\<close> block has
  been left, so the \<^verbatim>\<open>catch\<close> does not see the error: the program logs nothing and does not
  call \<^verbatim>\<open>process.exit\<close>. The outcome records the event as \<open>unhandled\<close>; that Node ends a
  process on such an event, with a report of its own, is Node's doing. The \<^verbatim>\<open>catch\<close> is
  reached by a rejection of \<^verbatim>\<open>createApp\<close>; \<open>exitCode\<close> is the argument of \<^verbatim>\<open>process.exit\<close>.
\<close>

record environment =
  listen_fault :: "error option"

datatype logEntry = Log string | Error string error

record outcome =
  console :: "logEntry list"
  exitCode :: "int option"
  listening :: "(addr \<times> nat) option"
  unhandled :: "error option"

definition PORT :: nat where
  "PORT = 3000"

definition failed :: "error \<Rightarrow> outcome" where
  "failed e = \<lparr>console = [Error ''Error starting server:'' e], exitCode = Some 1,
               listening = None, unhandled = None\<rparr>"

definition index :: "environment \<Rightarrow> process \<Rightarrow> outcome \<times> process" where
  "index env p =
     (case createApp p of
        (Inl e, p1) \<Rightarrow> (failed e, p1)
      | (Inr app, p1) \<Rightarrow>
          (case listen_fault env of
             None \<Rightarrow>
               (\<lparr>console = [Log ''Server is running on http://localhost:3000''],
                 exitCode = None, listening = Some (app, PORT), unhandled = None\<rparr>, p1)
           | Some e \<Rightarrow>
               (\<lparr>console = [], exitCode = None, listening = None, unhandled = Some e\<rparr>, p1)))"

section \<open>Runs of a process\<close>

text \<open>
  What a process does with its registry over its lifetime: it asks for the registry, it
  resolves an identifier from it (\<^verbatim>\<open>DIContainer.resolveDependencies().get(id)\<close>), it creates
  the application, it serves a request through the application (once \<^verbatim>\<open>build\<close> has
  registered the controllers; before that there is no server to receive it). A run is a
  sequence of these, in any order and number.
\<close>

definition DIContainer_get :: "serviceIdentifier \<Rightarrow> process \<Rightarrow> (error + addr) \<times> process" where
  "DIContainer_get sid p =
     (case resolveDependencies p of
        Inl e \<Rightarrow> (Inl e, p)
      | Inr (c, p1) \<Rightarrow>
          (case get c sid (heap p1) of
             Inl e \<Rightarrow> (Inl e, p1)
           | Inr (a, h) \<Rightarrow> (Inr a, p1\<lparr>heap := h\<rparr>)))"

definition serve :: "addr \<Rightarrow> request \<Rightarrow> process \<Rightarrow> response \<times> process" where
  "serve app req p =
     (case handleRequest app req (heap p) of (res, h) \<Rightarrow> (res, p\<lparr>heap := h\<rparr>))"

datatype operation = ResolveDependencies | Get serviceIdentifier | CreateApp | Request request

fun exec :: "operation \<Rightarrow> process \<Rightarrow> process" where
  "exec ResolveDependencies p =
     (case resolveDependencies p of Inl e \<Rightarrow> p | Inr (c, p1) \<Rightarrow> p1)"
| "exec (Get sid) p = snd (DIContainer_get sid p)"
| "exec CreateApp p = snd (createApp p)"
| "exec (Request req) p =
     (case DIContainer_container p of
        None \<Rightarrow> p
      | Some c \<Rightarrow> if isBound c TYPE_Controller (heap p) then snd (serve c req p) else p)"

definition run :: "operation list \<Rightarrow> process \<Rightarrow> process" where
  "run ops p = fold exec ops p"

text \<open>
  The bindings that the registry of a process holds (none while there is no registry),
  and the four bindings that \<^verbatim>\<open>registerDependencies\<close> writes, in its order.
\<close>

definition registry :: "process \<Rightarrow> binding list" where
  "registry p =
     (case DIContainer_container p of
        None \<Rightarrow> []
      | Some c \<Rightarrow> (case lookup (heap p) c of Some (Container dflt bs) \<Rightarrow> bs | _ \<Rightarrow> []))"

definition registered :: "binding list" where
  "registered =
     [\<lparr>serviceIdentifier = TYPES_Warrior, implementationType = Some Ninja,
        scope = Transient, cache = None, named = None\<rparr>,
      \<lparr>serviceIdentifier = TYPES_Weapon, implementationType = Some Katana,
        scope = Transient, cache = None, named = None\<rparr>,
      \<lparr>serviceIdentifier = TYPES_ThrowableWeapon, implementationType = Some Shuriken,
        scope = Transient, cache = None, named = None\<rparr>,
      \<lparr>serviceIdentifier = TYPES_WarriorController, implementationType = Some WarriorController,
        scope = Transient, cache = None, named = None\<rparr>]"

text \<open>
  The bindings that \<^verbatim>\<open>build\<close> adds: the constant under \<^verbatim>\<open>TYPE.HttpContext\<close> and one binding
  under \<^verbatim>\<open>TYPE.Controller\<close> for each controller.
\<close>

definition contextBinding :: "addr \<Rightarrow> binding" where
  "contextBinding v =
     \<lparr>serviceIdentifier = TYPE_HttpContext, implementationType = None,
       scope = Singleton, cache = Some v, named = None\<rparr>"

definition controllerBinding :: "newable \<Rightarrow> binding" where
  "controllerBinding ctl =
     \<lparr>serviceIdentifier = TYPE_Controller, implementationType = Some ctl,
       scope = Transient, cache = None, named = Some (name ctl)\<rparr>"

text \<open>
  A process is wired to \<open>c\<close> when its static field refers to \<open>c\<close> and \<open>c\<close> is a container
  whose bindings are the four of \<^verbatim>\<open>registerDependencies\<close> followed by bindings of the
  server: constants under \<^verbatim>\<open>TYPE.HttpContext\<close>, and under \<^verbatim>\<open>TYPE.Controller\<close> either none yet
  or the two that \<^verbatim>\<open>build\<close> adds.
\<close>

definition ofServer :: "binding list \<Rightarrow> bool" where
  "ofServer extra =
     (list_all (\<lambda>b. serviceIdentifier b = TYPE_Controller \<or> (\<exists>v. b = contextBinding v)) extra
      \<and> (filter (\<lambda>b. serviceIdentifier b = TYPE_Controller) extra = []
         \<or> filter (\<lambda>b. serviceIdentifier b = TYPE_Controller) extra
             = [controllerBinding InitController, controllerBinding WarriorController]))"

definition wiredStore :: "store \<Rightarrow> addr \<Rightarrow> bool" where
  "wiredStore h c =
     (\<exists>extra. lookup h c = Some (Container Transient (registered @ extra)) \<and> ofServer extra)"

definition wired :: "addr \<Rightarrow> process \<Rightarrow> bool" where
  "wired c p = (DIContainer_container p = Some c \<and> wiredStore (heap p) c)"

section \<open>Resolution in the wired registry\<close>

text \<open>
  In a store whose container holds the four bindings and, after them, only bindings of
  the server, every resolution of one of the four tokens succeeds and only allocates:
  the objects it builds are appended and nothing that was there changes. \<^verbatim>\<open>build\<close> appends
  bindings of the server to the container and objects to the store. So a process that is
  wired stays wired, whatever it does, and a fresh process is either still untouched or
  wired to address 0.
\<close>

lemma lookup_append: "a < length h \<Longrightarrow> lookup (h @ xs) a = lookup h a"
  by (simp add: lookup_def nth_append)

lemma lookup_SomeD: "lookup h a = Some x \<Longrightarrow> a < length h"
  by (simp add: lookup_def split: if_splits)

lemma ofServer_Nil: "ofServer []"
  by (simp add: ofServer_def)

lemma ofServer_no_TYPES:
  assumes "ofServer extra" and "sid \<in> set TYPES"
  shows "filter (\<lambda>b. serviceIdentifier b = sid \<and> P b) extra = []"
  using assms by (auto simp: ofServer_def TYPES_def list_all_iff filter_empty_conv contextBinding_def)

lemma wiredStore_append: "wiredStore h c \<Longrightarrow> wiredStore (h @ xs) c"
  unfolding wiredStore_def
  by (metis lookup_append lookup_SomeD)

lemma resolveDependencies_unset:
  "DIContainer_container p = None \<Longrightarrow>
   resolveDependencies p =
     Inr (length (heap p),
          \<lparr>DIContainer_container = Some (length (heap p)),
            heap = heap p @ [Container Transient registered]\<rparr>)"
  by (simp add: resolveDependencies_def Container_new_def alloc_def registerDependencies_def
        bind_to_def lookup_def registered_def)

lemma resolveDependencies_set:
  "DIContainer_container p = Some c \<Longrightarrow> resolveDependencies p = Inr (c, p)"
  by (simp add: resolveDependencies_def)

lemma resolve_Weapon:
  assumes "wiredStore h c" and "TYPES_Weapon \<notin> set chain"
  shows "resolve c chain TYPES_Weapon h = Inr (length h, h @ [KatanaObject])"
proof -
  from assms(1) obtain extra
    where l: "lookup h c = Some (Container Transient (registered @ extra))"
      and s: "ofServer extra"
    by (auto simp: wiredStore_def)
  have "filter (\<lambda>b. serviceIdentifier b = TYPES_Weapon \<and> named b = None) extra = []"
    by (rule ofServer_no_TYPES [OF s]) (simp add: TYPES_def)
  with l assms(2) show ?thesis
    by (simp add: registered_def alloc_def)
qed

lemma resolve_ThrowableWeapon:
  assumes "wiredStore h c" and "TYPES_ThrowableWeapon \<notin> set chain"
  shows "resolve c chain TYPES_ThrowableWeapon h = Inr (length h, h @ [ShurikenObject])"
proof -
  from assms(1) obtain extra
    where l: "lookup h c = Some (Container Transient (registered @ extra))"
      and s: "ofServer extra"
    by (auto simp: wiredStore_def)
  have "filter (\<lambda>b. serviceIdentifier b = TYPES_ThrowableWeapon \<and> named b = None) extra = []"
    by (rule ofServer_no_TYPES [OF s]) (simp add: TYPES_def)
  with l assms(2) show ?thesis
    by (simp add: registered_def alloc_def)
qed

lemma instantiate_Ninja:
  assumes "wiredStore h c" and "TYPES_Weapon \<notin> set chain" and "TYPES_ThrowableWeapon \<notin> set chain"
  shows "instantiate c chain Ninja h =
     Inr (length h + 2, h @ [KatanaObject, ShurikenObject, NinjaObject (length h) (length h + 1)])"
  using resolve_Weapon [OF assms(1,2)]
    resolve_ThrowableWeapon [OF wiredStore_append [OF assms(1)] assms(3), of "[KatanaObject]"]
  by (simp add: alloc_def del: resolve.simps)

lemma resolve_Warrior:
  assumes "wiredStore h c" and "set chain \<inter> {TYPES_Warrior, TYPES_Weapon, TYPES_ThrowableWeapon} = {}"
  shows "resolve c chain TYPES_Warrior h =
     Inr (length h + 2, h @ [KatanaObject, ShurikenObject, NinjaObject (length h) (length h + 1)])"
proof -
  from assms(1) obtain extra
    where l: "lookup h c = Some (Container Transient (registered @ extra))"
      and s: "ofServer extra"
    by (auto simp: wiredStore_def)
  have f: "filter (\<lambda>b. serviceIdentifier b = TYPES_Warrior \<and> named b = None) extra = []"
    by (rule ofServer_no_TYPES [OF s]) (simp add: TYPES_def)
  have i: "instantiate c (TYPES_Warrior # chain) Ninja h =
     Inr (length h + 2, h @ [KatanaObject, ShurikenObject, NinjaObject (length h) (length h + 1)])"
    using assms(2) by (intro instantiate_Ninja [OF assms(1)]) auto
  have "resolve c chain TYPES_Warrior h =
      activate c (TYPES_Warrior # chain)
        \<lparr>serviceIdentifier = TYPES_Warrior, implementationType = Some Ninja,
          scope = Transient, cache = None, named = None\<rparr> h"
    using l f assms(2) by (simp add: registered_def del: activate.simps)
  also have "\<dots> = Inr (length h + 2,
      h @ [KatanaObject, ShurikenObject, NinjaObject (length h) (length h + 1)])"
    using i by (simp del: instantiate.simps)
  finally show ?thesis .
qed

lemma instantiate_WarriorController:
  assumes "wiredStore h c" and "set chain \<inter> {TYPES_Warrior, TYPES_Weapon, TYPES_ThrowableWeapon} = {}"
  shows "instantiate c chain WarriorController h =
     Inr (length h + 3, h @ [KatanaObject, ShurikenObject, NinjaObject (length h) (length h + 1),
                             WarriorControllerObject (length h + 2)])"
  using resolve_Warrior [OF assms] by (simp add: alloc_def del: resolve.simps)

lemma resolve_WarriorController:
  assumes "wiredStore h c"
    and "set chain \<inter> {TYPES_Warrior, TYPES_Weapon, TYPES_ThrowableWeapon, TYPES_WarriorController} = {}"
  shows "resolve c chain TYPES_WarriorController h =
     Inr (length h + 3, h @ [KatanaObject, ShurikenObject, NinjaObject (length h) (length h + 1),
                             WarriorControllerObject (length h + 2)])"
proof -
  from assms(1) obtain extra
    where l: "lookup h c = Some (Container Transient (registered @ extra))"
      and s: "ofServer extra"
    by (auto simp: wiredStore_def)
  have f: "filter (\<lambda>b. serviceIdentifier b = TYPES_WarriorController \<and> named b = None) extra = []"
    by (rule ofServer_no_TYPES [OF s]) (simp add: TYPES_def)
  have i: "instantiate c (TYPES_WarriorController # chain) WarriorController h =
     Inr (length h + 3, h @ [KatanaObject, ShurikenObject, NinjaObject (length h) (length h + 1),
                             WarriorControllerObject (length h + 2)])"
    using assms(2) by (intro instantiate_WarriorController [OF assms(1)]) auto
  have "resolve c chain TYPES_WarriorController h =
      activate c (TYPES_WarriorController # chain)
        \<lparr>serviceIdentifier = TYPES_WarriorController, implementationType = Some WarriorController,
          scope = Transient, cache = None, named = None\<rparr> h"
    using l f assms(2) by (simp add: registered_def del: activate.simps)
  also have "\<dots> = Inr (length h + 3, h @ [KatanaObject, ShurikenObject,
      NinjaObject (length h) (length h + 1), WarriorControllerObject (length h + 2)])"
    using i by (simp del: instantiate.simps)
  finally show ?thesis .
qed

lemma get_appends:
  assumes "wiredStore h c" and "sid \<in> set TYPES"
  shows "\<exists>a xs. get c sid h = Inr (a, h @ xs) \<and> length h \<le> a \<and> a < length (h @ xs)"
  using assms(2) resolve_Warrior [OF assms(1), of "[]"] resolve_Weapon [OF assms(1), of "[]"]
    resolve_ThrowableWeapon [OF assms(1), of "[]"] resolve_WarriorController [OF assms(1), of "[]"]
  by (auto simp: TYPES_def get_def simp del: resolve.simps)

lemma invoke_fight:
  "invoke (h @ [KatanaObject, ShurikenObject, NinjaObject (length h) (length h + 1),
                WarriorControllerObject (length h + 2)]) (length h + 3) fight = Inr ''cut!''"
  by (simp add: invoke_def lookup_def nth_append WarriorController_fight_def Warrior_fight_def
        Ninja_fight_def Weapon_hit_def Katana_hit_def)

lemma invoke_sneak:
  "invoke (h @ [KatanaObject, ShurikenObject, NinjaObject (length h) (length h + 1),
                WarriorControllerObject (length h + 2)]) (length h + 3) sneak = Inr ''hit!''"
  by (simp add: invoke_def lookup_def nth_append WarriorController_sneak_def Warrior_sneak_def
        Ninja_sneak_def ThrowableWeapon_throw_def Shuriken_throw_def)

lemma handler_fight:
  "wiredStore h c \<Longrightarrow>
   handler c WarriorController fight h =
     (Send ''cut!'', h @ [KatanaObject, ShurikenObject, NinjaObject (length h) (length h + 1),
                          WarriorControllerObject (length h + 2)])"
  using invoke_fight [of h]
  by (simp add: handler_def instantiate_WarriorController del: instantiate.simps)

lemma handler_sneak:
  "wiredStore h c \<Longrightarrow>
   handler c WarriorController sneak h =
     (Send ''hit!'', h @ [KatanaObject, ShurikenObject, NinjaObject (length h) (length h + 1),
                          WarriorControllerObject (length h + 2)])"
  using invoke_sneak [of h]
  by (simp add: handler_def instantiate_WarriorController del: instantiate.simps)

lemma handler_root:
  "handler c InitController fight h =
     (Send ''base route. Hello World Fellas'', h @ [InitControllerObject])"
  by (simp add: handler_def alloc_def invoke_def lookup_def InitController_fight_def)

lemma pathMatches_root:
  "pathMatches ''/'' p = (map toLowerCase p = ''/'' \<or> p = [])"
  by (simp add: pathMatches_def toLowerCase_def)

lemma pathMatches_fight:
  "pathMatches ''/warrior/fight'' p =
     (map toLowerCase p = ''/warrior/fight'' \<or> map toLowerCase p = ''/warrior/fight/'')"
  by (simp add: pathMatches_def toLowerCase_def)

lemma pathMatches_sneak:
  "pathMatches ''/warrior/sneak'' p =
     (map toLowerCase p = ''/warrior/sneak'' \<or> map toLowerCase p = ''/warrior/sneak/'')"
  by (simp add: pathMatches_def toLowerCase_def)

lemmas pathMatches_routes = pathMatches_root pathMatches_fight pathMatches_sneak

lemma handleRequest_refused:
  "payload req = Refused r \<Longrightarrow> handleRequest c req h = (Rejected r, h)"
  by (simp add: handleRequest_def)

lemma handleRequest_fight:
  "wiredStore h c \<Longrightarrow> httpMethod req = GET \<Longrightarrow> pathMatches ''/warrior/fight'' (path req) \<Longrightarrow>
   payload req = Absent \<or> payload req = Accepted \<Longrightarrow>
   handleRequest c req h =
     (Send ''cut!'', h @ [KatanaObject, ShurikenObject, NinjaObject (length h) (length h + 1),
                          WarriorControllerObject (length h + 2)])"
  by (auto simp add: handleRequest_def routes_def handler_fight pathMatches_routes)

lemma handleRequest_sneak:
  "wiredStore h c \<Longrightarrow> httpMethod req = GET \<Longrightarrow> pathMatches ''/warrior/sneak'' (path req) \<Longrightarrow>
   payload req = Absent \<or> payload req = Accepted \<Longrightarrow>
   handleRequest c req h =
     (Send ''hit!'', h @ [KatanaObject, ShurikenObject, NinjaObject (length h) (length h + 1),
                          WarriorControllerObject (length h + 2)])"
  by (auto simp add: handleRequest_def routes_def handler_sneak pathMatches_routes)


lemma handleRequest_cases:
  assumes "wiredStore h c"
  shows "\<exists>v xs. handleRequest c req h = (v, h @ xs) \<and> (\<forall>e. v \<noteq> InternalServerError e)"
  using assms
  by (cases "payload req")
     (auto simp add: handleRequest_def routes_def handler_fight handler_sneak handler_root)

lemma filter_conj_empty: "filter P xs = [] \<Longrightarrow> filter (\<lambda>x. P x \<and> Q x) xs = []"
  by (auto simp: filter_empty_conv)

lemma ofServer_context: "ofServer extra \<Longrightarrow> ofServer (extra @ [contextBinding v])"
  by (auto simp: ofServer_def contextBinding_def)

lemma ofServer_controllers:
  "ofServer extra \<Longrightarrow> filter (\<lambda>b. serviceIdentifier b = TYPE_Controller) extra = [] \<Longrightarrow>
   ofServer (extra @ [contextBinding v, controllerBinding InitController,
                      controllerBinding WarriorController])"
  by (auto simp: ofServer_def contextBinding_def controllerBinding_def)

lemma build_unbuilt:
  assumes l: "lookup h c = Some (Container Transient (registered @ extra))"
    and u: "filter (\<lambda>b. serviceIdentifier b = TYPE_Controller) extra = []"
    and s: "ofServer extra"
  shows "build c h =
     (None, (h @ [EmptyObject])[c := Container Transient
               (registered @ extra @ [contextBinding (length h), controllerBinding InitController,
                                      controllerBinding WarriorController])]
            @ [InitControllerObject, KatanaObject, ShurikenObject,
               NinjaObject (length h + 2) (length h + 3), WarriorControllerObject (length h + 4)])"
proof -
  let ?h1 = "h @ [EmptyObject]"
  let ?B = "\<lambda>more. ?h1[c := Container Transient (registered @ extra @ more)]"
  let ?ctx = "contextBinding (length h)"
  let ?CI = "controllerBinding InitController"
  let ?CW = "controllerBinding WarriorController"
  from l have c: "c < length h" by (rule lookup_SomeD)
  then have c1: "c < length ?h1" by simp
  have l1: "lookup ?h1 c = Some (Container Transient (registered @ extra))"
    using l c by (simp add: lookup_append)
  have lB: "lookup (?B more) c = Some (Container Transient (registered @ extra @ more))" for more
    using c1 by (simp add: lookup_def)
  have s2: "bind_toConstantValue c TYPE_HttpContext (length h) ?h1 = Inr (?B [?ctx])"
    using l1 by (simp add: bind_toConstantValue_def contextBinding_def)
  have n: "filter (\<lambda>b. serviceIdentifier b = TYPE_Controller \<and> Q b) extra = []" for Q
    by (rule filter_conj_empty [OF u])
  have b1: "\<not> isBoundNamed c TYPE_Controller ''InitController'' (?B [?ctx])"
    unfolding isBoundNamed_def lB
    by (simp add: registered_def contextBinding_def n)
  have s3: "bind_to_whenTargetNamed c TYPE_Controller InitController ''InitController'' (?B [?ctx])
      = Inr (?B [?ctx, ?CI])"
    unfolding bind_to_whenTargetNamed_def lB
    by (simp add: controllerBinding_def)
  have b2: "\<not> isBoundNamed c TYPE_Controller ''WarriorController'' (?B [?ctx, ?CI])"
    unfolding isBoundNamed_def lB
    by (simp add: registered_def contextBinding_def controllerBinding_def n)
  have s4: "bind_to_whenTargetNamed c TYPE_Controller WarriorController ''WarriorController''
      (?B [?ctx, ?CI]) = Inr (?B [?ctx, ?CI, ?CW])"
    unfolding bind_to_whenTargetNamed_def lB
    by (simp add: controllerBinding_def)
  have s5: "bindControllers c controllers (?B [?ctx]) = (None, ?B [?ctx, ?CI, ?CW])"
    using b1 b2 by (simp add: controllers_def s3 s4)
  let ?h3 = "?B [?ctx, ?CI, ?CW]"
  have w3: "wiredStore ?h3 c"
    unfolding wiredStore_def using lB [of "[?ctx, ?CI, ?CW]"] ofServer_controllers [OF s u]
    by blast
  have len3: "length ?h3 = length h + 1" by simp
  have f: "filter (\<lambda>b. serviceIdentifier b = TYPE_Controller) (registered @ extra @ [?ctx, ?CI, ?CW])
      = [?CI, ?CW]"
    using u by (simp add: registered_def contextBinding_def controllerBinding_def)
  have a1: "activate c [TYPE_Controller] ?CI ?h3 = Inr (length h + 1, ?h3 @ [InitControllerObject])"
    by (simp add: controllerBinding_def alloc_def)
  have w3': "wiredStore (?h3 @ [InitControllerObject]) c"
    by (rule wiredStore_append [OF w3])
  have a2: "activate c [TYPE_Controller] ?CW (?h3 @ [InitControllerObject]) =
      Inr (length h + 5, ?h3 @ [InitControllerObject, KatanaObject, ShurikenObject,
               NinjaObject (length h + 2) (length h + 3), WarriorControllerObject (length h + 4)])"
    using instantiate_WarriorController [OF w3', of "[TYPE_Controller]"]
    by (simp add: controllerBinding_def del: instantiate.simps)
  have s6: "getControllersFromContainer c ?h3 =
      Inr ([length h + 1, length h + 5],
           ?h3 @ [InitControllerObject, KatanaObject, ShurikenObject,
               NinjaObject (length h + 2) (length h + 3), WarriorControllerObject (length h + 4)])"
    unfolding getControllersFromContainer_def isBound_def getAll_def lB option.case object.case f
    using a1 a2 by (simp del: activate.simps)
  show ?thesis
    by (simp add: build_def alloc_def s2 s5 s6)
qed

lemma build_built:
  assumes l: "lookup h c = Some (Container Transient (registered @ extra))"
    and u: "filter (\<lambda>b. serviceIdentifier b = TYPE_Controller) extra
              = [controllerBinding InitController, controllerBinding WarriorController]"
  shows "build c h =
     (Some (DuplicatedControllerName ''InitController''),
      (h @ [EmptyObject])[c := Container Transient (registered @ extra @ [contextBinding (length h)])])"
proof -
  let ?h1 = "h @ [EmptyObject]"
  let ?h2 = "?h1[c := Container Transient (registered @ extra @ [contextBinding (length h)])]"
  from l have c: "c < length h" by (rule lookup_SomeD)
  have l1: "lookup ?h1 c = Some (Container Transient (registered @ extra))"
    using l c by (simp add: lookup_append)
  have s2: "bind_toConstantValue c TYPE_HttpContext (length h) ?h1 = Inr ?h2"
    using l1 by (simp add: bind_toConstantValue_def contextBinding_def)
  have "controllerBinding InitController
      \<in> set (filter (\<lambda>b. serviceIdentifier b = TYPE_Controller) extra)"
    by (simp add: u)
  then have "controllerBinding InitController \<in> set extra" by simp
  then have "filter (\<lambda>b. serviceIdentifier b = TYPE_Controller
        \<and> (named b = None \<or> named b = Some ''InitController'')) extra \<noteq> []"
    by (auto simp: filter_empty_conv controllerBinding_def intro!: bexI [of _ "controllerBinding InitController"])
  then have b1: "isBoundNamed c TYPE_Controller ''InitController'' ?h2"
    using c by (simp add: isBoundNamed_def lookup_def)
  show ?thesis
    using b1 by (simp add: build_def alloc_def s2 controllers_def)
qed

lemma build_wired:
  assumes "wiredStore h c"
  shows "wiredStore (snd (build c h)) c"
proof -
  from assms obtain extra
    where l: "lookup h c = Some (Container Transient (registered @ extra))"
      and s: "ofServer extra"
    by (auto simp: wiredStore_def)
  from l have c: "c < length h" by (rule lookup_SomeD)
  from s consider "filter (\<lambda>b. serviceIdentifier b = TYPE_Controller) extra = []"
    | "filter (\<lambda>b. serviceIdentifier b = TYPE_Controller) extra
         = [controllerBinding InitController, controllerBinding WarriorController]"
    by (auto simp: ofServer_def)
  then show ?thesis
  proof cases
    case 1
    have "wiredStore ((h @ [EmptyObject])[c := Container Transient
               (registered @ extra @ [contextBinding (length h), controllerBinding InitController,
                                      controllerBinding WarriorController])]) c"
      unfolding wiredStore_def using c ofServer_controllers [OF s 1, of "length h"]
      by (auto simp: lookup_def)
    then show ?thesis
      by (simp add: build_unbuilt [OF l 1 s] wiredStore_append)
  next
    case 2
    have "wiredStore ((h @ [EmptyObject])[c := Container Transient
               (registered @ extra @ [contextBinding (length h)])]) c"
      unfolding wiredStore_def using c ofServer_context [OF s, of "length h"]
      by (auto simp: lookup_def)
    then show ?thesis
      by (simp add: build_built [OF l 2])
  qed
qed

lemma wired_extend: "wired c p \<Longrightarrow> wired c (p\<lparr>heap := heap p @ xs\<rparr>)"
  by (simp add: wired_def wiredStore_append)

lemma wired_fresh:
  "wired (length h) \<lparr>DIContainer_container = Some (length h),
                      heap = h @ [Container Transient registered]\<rparr>"
  unfolding wired_def wiredStore_def using ofServer_Nil
  by (auto simp: lookup_def intro!: exI [of _ "[]"])

lemma createApp_wired:
  assumes "wired c p"
  shows "wired c (snd (createApp p))"
proof -
  from assms have f: "DIContainer_container p = Some c" and w: "wiredStore (heap p) c"
    by (simp_all add: wired_def)
  from build_wired [OF w] f show ?thesis
    by (cases "build c (heap p)")
       (auto simp add: createApp_def resolveDependencies_set [OF f] wired_def split: option.splits)
qed

lemma createApp_unset:
  "DIContainer_container p = None \<Longrightarrow>
   createApp p = createApp \<lparr>DIContainer_container = Some (length (heap p)),
                            heap = heap p @ [Container Transient registered]\<rparr>"
  by (simp add: createApp_def resolveDependencies_unset resolveDependencies_set)

lemma DIContainer_get_unset:
  "DIContainer_container p = None \<Longrightarrow>
   DIContainer_get sid p =
     DIContainer_get sid \<lparr>DIContainer_container = Some (length (heap p)),
                          heap = heap p @ [Container Transient registered]\<rparr>"
  by (simp add: DIContainer_get_def resolveDependencies_unset resolveDependencies_set)

lemma get_wiredStore:
  assumes w: "wiredStore h c" and g: "get c sid h = Inr (a, h')"
  shows "wiredStore h' c"
proof (cases "sid \<in> set TYPES")
  case True
  from get_appends [OF w True] g show ?thesis
    by (auto simp: wiredStore_append [OF w])
next
  case False
  from w obtain extra
    where l: "lookup h c = Some (Container Transient (registered @ extra))"
      and s: "ofServer extra"
    by (auto simp: wiredStore_def)
  have r: "filter (\<lambda>b. serviceIdentifier b = sid \<and> named b = None) registered = []"
    using False by (auto simp: registered_def TYPES_def)
  have t: "serviceIdentifier b = TYPE_HttpContext \<and> (\<exists>v. b = contextBinding v)"
    if "b \<in> set extra" "serviceIdentifier b = sid" "named b = None" for b
  proof -
    have "serviceIdentifier b \<noteq> TYPE_Controller"
    proof
      assume "serviceIdentifier b = TYPE_Controller"
      with that have m: "b \<in> set (filter (\<lambda>b. serviceIdentifier b = TYPE_Controller) extra)"
        by simp
      from s have "filter (\<lambda>b. serviceIdentifier b = TYPE_Controller) extra = []
          \<or> filter (\<lambda>b. serviceIdentifier b = TYPE_Controller) extra
               = [controllerBinding InitController, controllerBinding WarriorController]"
        by (simp add: ofServer_def)
      then show False
      proof
        assume e: "filter (\<lambda>b. serviceIdentifier b = TYPE_Controller) extra = []"
        from m show False unfolding e by simp
      next
        assume e: "filter (\<lambda>b. serviceIdentifier b = TYPE_Controller) extra
               = [controllerBinding InitController, controllerBinding WarriorController]"
        from m have "b = controllerBinding InitController \<or> b = controllerBinding WarriorController"
          unfolding e by simp
        with that(3) show False by (auto simp: controllerBinding_def)
      qed
    qed
    with s that(1) show ?thesis
      by (auto simp: ofServer_def list_all_iff contextBinding_def)
  qed
  show ?thesis
  proof (cases "filter (\<lambda>b. serviceIdentifier b = sid \<and> named b = None) extra")
    case Nil
    with l r g show ?thesis by (simp add: get_def)
  next
    case (Cons b bs)
    then have "b \<in> set (filter (\<lambda>b. serviceIdentifier b = sid \<and> named b = None) extra)"
      by simp
    then have "b \<in> set extra" "serviceIdentifier b = sid" "named b = None" by auto
    from t [OF this] obtain v where b: "b = contextBinding v" by blast
    from l r g Cons b have "h' = h"
      by (cases bs) (auto simp: get_def contextBinding_def split: if_splits)
    with w show ?thesis by simp
  qed
qed

lemma exec_wired:
  assumes "wired c p"
  shows "wired c (exec op p)"
proof (cases op)
  case ResolveDependencies
  with assms show ?thesis by (simp add: wired_def resolveDependencies_set)
next
  case (Get sid)
  from assms have f: "DIContainer_container p = Some c" and w: "wiredStore (heap p) c"
    by (simp_all add: wired_def)
  show ?thesis
  proof (cases "get c sid (heap p)")
    case (Inl e)
    with assms Get f show ?thesis
      by (simp add: DIContainer_get_def resolveDependencies_set)
  next
    case (Inr r)
    then obtain a h' where g: "get c sid (heap p) = Inr (a, h')" by (cases r) simp
    from get_wiredStore [OF w g] Get f g show ?thesis
      by (simp add: DIContainer_get_def resolveDependencies_set wired_def)
  qed
next
  case CreateApp
  with createApp_wired [OF assms] show ?thesis by simp
next
  case (Request req)
  from assms have w: "wiredStore (heap p) c" by (simp add: wired_def)
  from handleRequest_cases [OF w, of req] obtain v xs
    where "handleRequest c req (heap p) = (v, heap p @ xs)" by blast
  with assms Request wired_extend [OF assms, of xs] show ?thesis
    by (simp add: wired_def serve_def)
qed

lemma run_wired: "wired c p \<Longrightarrow> wired c (run ops p)"
  by (induction ops arbitrary: p) (simp_all add: run_def exec_wired)

lemma exec_unset:
  assumes "DIContainer_container p = None"
  shows "exec op p = p \<or> wired (length (heap p)) (exec op p)"
proof (cases op)
  case ResolveDependencies
  with assms wired_fresh [of "heap p"] show ?thesis
    by (simp add: resolveDependencies_unset)
next
  case (Get sid)
  have "exec (Get sid) p = exec (Get sid) \<lparr>DIContainer_container = Some (length (heap p)),
                          heap = heap p @ [Container Transient registered]\<rparr>"
    by (simp add: DIContainer_get_unset [OF assms])
  with Get exec_wired [OF wired_fresh, of "heap p" "Get sid"] show ?thesis by simp
next
  case CreateApp
  have "exec CreateApp p = exec CreateApp \<lparr>DIContainer_container = Some (length (heap p)),
                          heap = heap p @ [Container Transient registered]\<rparr>"
    by (simp add: createApp_unset [OF assms])
  with CreateApp exec_wired [OF wired_fresh, of "heap p" CreateApp] show ?thesis by simp
next
  case (Request req)
  with assms show ?thesis by simp
qed

lemma run_init: "run ops init = init \<or> wired 0 (run ops init)"
proof (induction ops rule: rev_induct)
  case Nil
  show ?case by (simp add: run_def)
next
  case (snoc op ops)
  have step: "run (ops @ [op]) init = exec op (run ops init)" by (simp add: run_def)
  from snoc show ?case
  proof
    assume "run ops init = init"
    with exec_unset [of init op] show ?thesis
      unfolding step by (auto simp: init_def)
  next
    assume "wired 0 (run ops init)"
    then show ?thesis unfolding step by (simp add: exec_wired)
  qed
qed

lemma createApp_init:
  "createApp init =
     (Inr 0,
      \<lparr>DIContainer_container = Some 0,
        heap = [Container Transient
                  (registered @ [contextBinding 1, controllerBinding InitController,
                                 controllerBinding WarriorController]),
                EmptyObject, InitControllerObject, KatanaObject, ShurikenObject,
                NinjaObject 3 4, WarriorControllerObject 5]\<rparr>)"
proof -
  have l: "lookup [Container Transient registered] 0 = Some (Container Transient (registered @ []))"
    by (simp add: lookup_def)
  have b: "build 0 [Container Transient registered] =
     (None, [Container Transient
                  (registered @ [contextBinding 1, controllerBinding InitController,
                                 controllerBinding WarriorController]),
                EmptyObject, InitControllerObject, KatanaObject, ShurikenObject,
                NinjaObject 3 4, WarriorControllerObject 5])"
    using build_unbuilt [OF l _ ofServer_Nil] by simp
  have "createApp init =
      createApp \<lparr>DIContainer_container = Some 0, heap = [Container Transient registered]\<rparr>"
    using createApp_unset [of init] by (simp add: init_def)
  also have "\<dots> = (Inr 0,
      \<lparr>DIContainer_container = Some 0,
        heap = [Container Transient
                  (registered @ [contextBinding 1, controllerBinding InitController,
                                 controllerBinding WarriorController]),
                EmptyObject, InitControllerObject, KatanaObject, ShurikenObject,
                NinjaObject 3 4, WarriorControllerObject 5]\<rparr>)"
    by (simp add: createApp_def resolveDependencies_set b)
  finally show ?thesis .
qed

lemma wired_started: "wired 0 (snd (index env init))"
proof -
  have r: "run [CreateApp] init = snd (createApp init)" by (simp add: run_def)
  have "DIContainer_container (snd (createApp init)) = Some 0" by (simp add: createApp_init)
  moreover have "DIContainer_container init = None" by (simp add: init_def)
  ultimately have n: "snd (createApp init) \<noteq> init" by auto
  from run_init [of "[CreateApp]"] n have "wired 0 (snd (createApp init))"
    unfolding r by blast
  then show ?thesis
    by (simp add: index_def createApp_init split: option.splits)
qed

lemma serve_fight:
  "wired c p \<Longrightarrow> httpMethod req = GET \<Longrightarrow> pathMatches ''/warrior/fight'' (path req) \<Longrightarrow>
   payload req = Absent \<or> payload req = Accepted \<Longrightarrow>
   fst (serve c req p) = Send ''cut!''"
  by (simp add: wired_def serve_def handleRequest_fight)

lemma serve_sneak:
  "wired c p \<Longrightarrow> httpMethod req = GET \<Longrightarrow> pathMatches ''/warrior/sneak'' (path req) \<Longrightarrow>
   payload req = Absent \<or> payload req = Accepted \<Longrightarrow>
   fst (serve c req p) = Send ''hit!''"
  by (simp add: wired_def serve_def handleRequest_sneak)

lemma serve_refused:
  "payload req = Refused r \<Longrightarrow> fst (serve c req p) = Rejected r"
  by (simp add: serve_def handleRequest_refused)

lemma serve_no_fault:
  assumes "wired c p"
  shows "fst (serve c req p) \<noteq> InternalServerError e"
proof -
  from assms have "wiredStore (heap p) c" by (simp add: wired_def)
  from handleRequest_cases [OF this, of req] show ?thesis
    by (auto simp: serve_def)
qed

lemma DIContainer_get_wired:
  assumes "wired c p" and "sid \<in> set TYPES"
  shows "\<exists>a xs. DIContainer_get sid p = (Inr a, p\<lparr>heap := heap p @ xs\<rparr>)
           \<and> length (heap p) \<le> a \<and> a < length (heap p @ xs)"
proof -
  from assms have l: "wiredStore (heap p) c"
    and f: "DIContainer_container p = Some c"
    by (simp_all add: wired_def)
  from get_appends [OF l assms(2)] obtain a xs
    where "get c sid (heap p) = Inr (a, heap p @ xs)" "length (heap p) \<le> a"
      "a < length (heap p @ xs)"
    by blast
  then have "DIContainer_get sid p = (Inr a, p\<lparr>heap := heap p @ xs\<rparr>)
      \<and> length (heap p) \<le> a \<and> a < length (heap p @ xs)"
    by (simp add: DIContainer_get_def resolveDependencies_set [OF f])
  then show ?thesis by blast
qed

lemma DIContainer_get_twice:
  assumes "wired c p" and "sid \<in> set TYPES"
  shows "\<exists>a b. fst (DIContainer_get sid p) = Inr a
           \<and> fst (DIContainer_get sid (snd (DIContainer_get sid p))) = Inr b \<and> a < b"
proof -
  from DIContainer_get_wired [OF assms] obtain a xs
    where 1: "DIContainer_get sid p = (Inr a, p\<lparr>heap := heap p @ xs\<rparr>)"
      and a: "a < length (heap p @ xs)"
    by blast
  from wired_extend [OF assms(1), of xs] have "wired c (p\<lparr>heap := heap p @ xs\<rparr>)" .
  from DIContainer_get_wired [OF this assms(2)] obtain b ys
    where 2: "DIContainer_get sid (p\<lparr>heap := heap p @ xs\<rparr>)
                = (Inr b, p\<lparr>heap := heap p @ xs @ ys\<rparr>)"
      and b: "length (heap p @ xs) \<le> b"
    by auto
  from 1 2 a b show ?thesis by simp
qed

lemma registry_wired:
  assumes "wired c p"
  shows "take 4 (registry p) = registered
       \<and> filter (\<lambda>b. serviceIdentifier b \<in> set TYPES) (registry p) = registered
       \<and> list_all (\<lambda>b. serviceIdentifier b = TYPE_Controller \<or> serviceIdentifier b = TYPE_HttpContext)
           (drop 4 (registry p))"
proof -
  from assms obtain extra
    where r: "registry p = registered @ extra" and s: "ofServer extra"
    by (auto simp: wired_def wiredStore_def registry_def)
  have "filter (\<lambda>b. serviceIdentifier b \<in> set TYPES) extra = []"
    using s by (auto simp: ofServer_def list_all_iff filter_empty_conv TYPES_def contextBinding_def)
  moreover have "list_all (\<lambda>b. serviceIdentifier b = TYPE_Controller \<or> serviceIdentifier b = TYPE_HttpContext) extra"
    using s by (auto simp: ofServer_def list_all_iff contextBinding_def)
  ultimately show ?thesis
    by (simp add: r registered_def TYPES_def)
qed

lemma field_wired: "wired c p \<Longrightarrow> DIContainer_container p = Some c"
  by (simp add: wired_def)

lemma registerDependencies_adds_four:
  assumes "registerDependencies p = Inr p'"
  shows "length (registry p') = length (registry p) + 4"
  using assms
  by (auto simp add: registerDependencies_def bind_to_def lookup_def registry_def
           split: option.splits object.splits if_splits)

lemma createApp_twice:
  "fst (createApp (snd (createApp init))) = Inl (DuplicatedControllerName ''InitController'')"
proof -
  let ?h = "[Container Transient
                  (registered @ [contextBinding 1, controllerBinding InitController,
                                 controllerBinding WarriorController]),
                EmptyObject, InitControllerObject, KatanaObject, ShurikenObject,
                NinjaObject 3 4, WarriorControllerObject 5]"
  have l: "lookup ?h 0 = Some (Container Transient
      (registered @ [contextBinding 1, controllerBinding InitController,
                     controllerBinding WarriorController]))"
    by (simp add: lookup_def)
  have u: "filter (\<lambda>b. serviceIdentifier b = TYPE_Controller)
      [contextBinding 1, controllerBinding InitController, controllerBinding WarriorController]
      = [controllerBinding InitController, controllerBinding WarriorController]"
    by (simp add: contextBinding_def controllerBinding_def)
  have "snd (createApp init) = \<lparr>DIContainer_container = Some 0, heap = ?h\<rparr>"
    by (simp add: createApp_init)
  moreover have "fst (createApp \<lparr>DIContainer_container = Some 0, heap = ?h\<rparr>)
      = Inl (DuplicatedControllerName ''InitController'')"
    using build_built [OF l u] by (simp add: createApp_def resolveDependencies_set)
  ultimately show ?thesis by simp
qed

section \<open>The routes of the warrior\<close>

text \<open>
  C1. The claim is that every \<^verbatim>\<open>GET /warrior/fight\<close> is answered with status 200 and the
  JSON object \<^verbatim>\<open>{"action":"cut!"}\<close> as body. \<^verbatim>\<open>fight\<close> returns the warrior's string as it is and
  nothing wraps it: after a successful startup, whatever else the process has done
  since, the application that is listening answers a request whose body the parsers
  refuse with the refusal, and every other request with status 200 and the four
  characters \<^verbatim>\<open>cut!\<close>, which is not that JSON text.
\<close>

theorem fight_route_sends_the_bare_string:
  "listening (fst (index \<lparr>listen_fault = None\<rparr> init)) = Some (0, PORT)
   \<and> fst (serve 0 \<lparr>httpMethod = GET, path = ''/warrior/fight'', payload = body\<rparr>
          (run ops (snd (index \<lparr>listen_fault = None\<rparr> init))))
     = (case body of Refused r \<Rightarrow> Rejected r | _ \<Rightarrow> Send ''cut!'')
   \<and> status (Send ''cut!'') = 200
   \<and> ''cut!'' \<noteq> ''{\"action\":\"cut!\"}''"
proof -
  let ?req = "\<lparr>httpMethod = GET, path = ''/warrior/fight'', payload = body\<rparr>"
  let ?p = "run ops (snd (index \<lparr>listen_fault = None\<rparr> init))"
  have "listening (fst (index \<lparr>listen_fault = None\<rparr> init)) = Some (0, PORT)"
    by (simp add: index_def createApp_init)
  moreover
  have w: "wired 0 ?p" by (rule run_wired [OF wired_started])
  have "fst (serve 0 ?req ?p) = (case body of Refused r \<Rightarrow> Rejected r | _ \<Rightarrow> Send ''cut!'')"
  proof (cases body)
    case Absent
    with serve_fight [OF w, of ?req] show ?thesis by (simp add: pathMatches_fight toLowerCase_def)
  next
    case Accepted
    with serve_fight [OF w, of ?req] show ?thesis by (simp add: pathMatches_fight toLowerCase_def)
  next
    case (Refused r)
    with serve_refused [of ?req r 0 ?p] show ?thesis by simp
  qed
  ultimately show ?thesis by simp
qed

text \<open>
  C2. The claim is that every \<^verbatim>\<open>GET /warrior/sneak\<close> is answered with status 200 and the
  JSON object \<^verbatim>\<open>{"action":"hit!"}\<close> as body. As for the other route, the answer is the
  refusal of a body parser or status 200 with the bare string \<^verbatim>\<open>hit!\<close>, which is not that
  JSON text.
\<close>

theorem sneak_route_sends_the_bare_string:
  "listening (fst (index \<lparr>listen_fault = None\<rparr> init)) = Some (0, PORT)
   \<and> fst (serve 0 \<lparr>httpMethod = GET, path = ''/warrior/sneak'', payload = body\<rparr>
          (run ops (snd (index \<lparr>listen_fault = None\<rparr> init))))
     = (case body of Refused r \<Rightarrow> Rejected r | _ \<Rightarrow> Send ''hit!'')
   \<and> status (Send ''hit!'') = 200
   \<and> ''hit!'' \<noteq> ''{\"action\":\"hit!\"}''"
proof -
  let ?req = "\<lparr>httpMethod = GET, path = ''/warrior/sneak'', payload = body\<rparr>"
  let ?p = "run ops (snd (index \<lparr>listen_fault = None\<rparr> init))"
  have "listening (fst (index \<lparr>listen_fault = None\<rparr> init)) = Some (0, PORT)"
    by (simp add: index_def createApp_init)
  moreover
  have w: "wired 0 ?p" by (rule run_wired [OF wired_started])
  have "fst (serve 0 ?req ?p) = (case body of Refused r \<Rightarrow> Rejected r | _ \<Rightarrow> Send ''hit!'')"
  proof (cases body)
    case Absent
    with serve_sneak [OF w, of ?req] show ?thesis by (simp add: pathMatches_sneak toLowerCase_def)
  next
    case Accepted
    with serve_sneak [OF w, of ?req] show ?thesis by (simp add: pathMatches_sneak toLowerCase_def)
  next
    case (Refused r)
    with serve_refused [of ?req r 0 ?p] show ?thesis by simp
  qed
  ultimately show ?thesis by simp
qed

section \<open>Instances\<close>

text \<open>
  C3. The claim is that every resolution of a capability from the registry returns the
  same instance. The registry binds with \<^verbatim>\<open>bind(id).to(C)\<close> alone, in a container of
  default options, so its bindings are transient: in every state a process can reach, and
  for every token of \<^verbatim>\<open>TYPES\<close>, two consecutive resolutions succeed and the second returns
  an object allocated after the first. In a fresh process the first
  \<^verbatim>\<open>DIContainer.resolveDependencies().get(TYPES.Warrior)\<close> returns the object at address 3
  and the second the object at address 6.
\<close>

theorem resolution_builds_a_new_instance:
  assumes "sid \<in> set TYPES"
  shows "(\<exists>a b. fst (DIContainer_get sid (run ops init)) = Inr a
        \<and> fst (DIContainer_get sid (snd (DIContainer_get sid (run ops init)))) = Inr b
        \<and> a < b)
   \<and> fst (DIContainer_get TYPES_Warrior init) = Inr 3
   \<and> fst (DIContainer_get TYPES_Warrior (snd (DIContainer_get TYPES_Warrior init))) = Inr 6"
proof (intro conjI)
  let ?p1 = "\<lparr>DIContainer_container = Some 0, heap = [Container Transient registered]\<rparr>"
  have w: "wired 0 ?p1" using wired_fresh [of "[]"] by simp
  have u: "DIContainer_get s init = DIContainer_get s ?p1" for s
    using DIContainer_get_unset [of init s] by (simp add: init_def)
  from run_init [of ops]
  show "\<exists>a b. fst (DIContainer_get sid (run ops init)) = Inr a
        \<and> fst (DIContainer_get sid (snd (DIContainer_get sid (run ops init)))) = Inr b
        \<and> a < b"
  proof
    assume "run ops init = init"
    with DIContainer_get_twice [OF w assms] show ?thesis by (simp add: u)
  next
    assume "wired 0 (run ops init)"
    then show ?thesis using assms by (rule DIContainer_get_twice)
  qed
  have ws: "wiredStore (heap ?p1) 0" using w by (simp add: wired_def)
  have g1: "DIContainer_get TYPES_Warrior ?p1 =
      (Inr 3, ?p1\<lparr>heap := heap ?p1 @ [KatanaObject, ShurikenObject, NinjaObject 1 2]\<rparr>)"
    using resolve_Warrior [OF ws, of "[]"]
    by (simp add: DIContainer_get_def resolveDependencies_set get_def del: resolve.simps)
  show "fst (DIContainer_get TYPES_Warrior init) = Inr 3"
    by (simp add: u g1)
  let ?p2 = "?p1\<lparr>heap := heap ?p1 @ [KatanaObject, ShurikenObject, NinjaObject 1 2]\<rparr>"
  have w2: "wiredStore (heap ?p2) 0"
    using wired_extend [OF w, of "[KatanaObject, ShurikenObject, NinjaObject 1 2]"]
    by (simp add: wired_def)
  have g2: "fst (DIContainer_get TYPES_Warrior ?p2) = Inr 6"
    using resolve_Warrior [OF w2, of "[]"]
    by (simp add: DIContainer_get_def resolveDependencies_set get_def del: resolve.simps)
  have "snd (DIContainer_get TYPES_Warrior init) = ?p2"
    by (simp add: u g1)
  with g2 show "fst (DIContainer_get TYPES_Warrior (snd (DIContainer_get TYPES_Warrior init))) = Inr 6"
    by simp
qed

theorem resolution_builds_a_new_instance_witness:
  "TYPES_Weapon \<in> set TYPES
   \<and> (\<exists>a b. fst (DIContainer_get TYPES_Weapon (run [CreateApp] init)) = Inr a
        \<and> fst (DIContainer_get TYPES_Weapon
                 (snd (DIContainer_get TYPES_Weapon (run [CreateApp] init)))) = Inr b
        \<and> a < b)"
proof -
  have h: "TYPES_Weapon \<in> set TYPES" by (simp add: TYPES_def)
  from resolution_builds_a_new_instance [OF h, of "[CreateApp]"] h show ?thesis by blast
qed

section \<open>The registry\<close>

text \<open>
  C4. \<^verbatim>\<open>resolveDependencies\<close> is idempotent. Called in a process whose static field is
  unset, it succeeds, returns a handle that referred to nothing before (the container is
  newly constructed) and leaves the registry populated. From then on, whatever the
  process does in between, every further call returns that same handle and returns the
  process state as it found it, so nothing is registered again, and the four tokens
  keep the bindings they were given: these stay the first four of the registry and the
  only bindings of the four tokens.
\<close>

theorem resolveDependencies_idempotent:
  assumes "DIContainer_container p = None"
  shows "\<exists>c p1. resolveDependencies p = Inr (c, p1)
           \<and> lookup (heap p) c = None
           \<and> registry p1 = registered
           \<and> (\<forall>ops. resolveDependencies (run ops p1) = Inr (c, run ops p1)
                    \<and> take 4 (registry (run ops p1)) = registered
                    \<and> filter (\<lambda>b. serviceIdentifier b \<in> set TYPES) (registry (run ops p1))
                        = registered)"
proof -
  let ?c = "length (heap p)"
  let ?p1 = "\<lparr>DIContainer_container = Some ?c, heap = heap p @ [Container Transient registered]\<rparr>"
  have w: "wired ?c ?p1" by (rule wired_fresh)
  have "resolveDependencies (run ops ?p1) = Inr (?c, run ops ?p1)
      \<and> take 4 (registry (run ops ?p1)) = registered
      \<and> filter (\<lambda>b. serviceIdentifier b \<in> set TYPES) (registry (run ops ?p1)) = registered" for ops
    using run_wired [OF w, of ops] registry_wired [OF run_wired [OF w, of ops]]
    by (simp add: resolveDependencies_set [OF field_wired])
  moreover have "registry ?p1 = registered" by (simp add: registry_def lookup_def)
  ultimately show ?thesis
    using resolveDependencies_unset [OF assms] by (simp add: lookup_def)
qed

theorem resolveDependencies_idempotent_witness:
  "DIContainer_container init = None
   \<and> (\<exists>c p1. resolveDependencies init = Inr (c, p1)
           \<and> lookup (heap init) c = None
           \<and> registry p1 = registered
           \<and> (\<forall>ops. resolveDependencies (run ops p1) = Inr (c, run ops p1)
                    \<and> take 4 (registry (run ops p1)) = registered
                    \<and> filter (\<lambda>b. serviceIdentifier b \<in> set TYPES) (registry (run ops p1))
                        = registered))"
  using resolveDependencies_idempotent [of init] by (simp add: init_def)

text \<open>
  C5. The claim is that the first call of \<^verbatim>\<open>resolveDependencies\<close> registers exactly three
  bindings and no others. \<^verbatim>\<open>registerDependencies\<close> has a fourth line, which binds
  \<^verbatim>\<open>TYPES.WarriorController\<close> to \<^verbatim>\<open>WarriorController\<close>: after the first call in a fresh
  process the registry has four bindings, the one at index 3 being that one.
\<close>

theorem first_resolution_registers_four_counterexample:
  "length (registry (exec ResolveDependencies init)) = 4
   \<and> serviceIdentifier (registry (exec ResolveDependencies init) ! 3) = TYPES_WarriorController
   \<and> implementationType (registry (exec ResolveDependencies init) ! 3) = Some WarriorController"
  by (simp add: resolveDependencies_unset init_def registry_def lookup_def registered_def)

text \<open>
  C5, as amended. A call of \<^verbatim>\<open>resolveDependencies\<close> that finds the static field unset
  succeeds and leaves exactly four bindings in the registry, in this order: Warrior to
  Ninja, Weapon to Katana, ThrowableWeapon to Shuriken and WarriorController to
  WarriorController.
\<close>

theorem first_resolution_registers_four:
  assumes "DIContainer_container p = None"
  shows "\<exists>c p1. resolveDependencies p = Inr (c, p1)
           \<and> registry p1 =
               [\<lparr>serviceIdentifier = TYPES_Warrior, implementationType = Some Ninja,
                  scope = Transient, cache = None, named = None\<rparr>,
                \<lparr>serviceIdentifier = TYPES_Weapon, implementationType = Some Katana,
                  scope = Transient, cache = None, named = None\<rparr>,
                \<lparr>serviceIdentifier = TYPES_ThrowableWeapon, implementationType = Some Shuriken,
                  scope = Transient, cache = None, named = None\<rparr>,
                \<lparr>serviceIdentifier = TYPES_WarriorController,
                  implementationType = Some WarriorController, scope = Transient,
                  cache = None, named = None\<rparr>]"
  using resolveDependencies_unset [OF assms]
  by (simp add: registry_def lookup_def registered_def)

theorem first_resolution_registers_four_witness:
  "DIContainer_container init = None
   \<and> (\<exists>c p1. resolveDependencies init = Inr (c, p1)
           \<and> registry p1 =
               [\<lparr>serviceIdentifier = TYPES_Warrior, implementationType = Some Ninja,
                  scope = Transient, cache = None, named = None\<rparr>,
                \<lparr>serviceIdentifier = TYPES_Weapon, implementationType = Some Katana,
                  scope = Transient, cache = None, named = None\<rparr>,
                \<lparr>serviceIdentifier = TYPES_ThrowableWeapon, implementationType = Some Shuriken,
                  scope = Transient, cache = None, named = None\<rparr>,
                \<lparr>serviceIdentifier = TYPES_WarriorController,
                  implementationType = Some WarriorController, scope = Transient,
                  cache = None, named = None\<rparr>])"
  using first_resolution_registers_four [of init] by (simp add: init_def)

text \<open>
  C10. The claim is that \<^verbatim>\<open>registerDependencies\<close> runs at most once, so that no binding is
  ever added, removed or rebound after the first resolution. The first half holds, the
  conclusion does not: \<^verbatim>\<open>createApp\<close> hands the registry to the server, whose \<^verbatim>\<open>build\<close> adds
  three bindings of its own. The first resolution of a fresh process leaves four
  bindings; creating the application after it, as the startup of the program does,
  leaves seven, the fifth under \<^verbatim>\<open>TYPE.HttpContext\<close>.
\<close>

theorem build_adds_bindings_counterexample:
  "length (registry (exec ResolveDependencies init)) = 4
   \<and> length (registry (exec CreateApp (exec ResolveDependencies init))) = 7
   \<and> length (registry (snd (index \<lparr>listen_fault = None\<rparr> init))) = 7
   \<and> serviceIdentifier (registry (snd (index \<lparr>listen_fault = None\<rparr> init)) ! 4) = TYPE_HttpContext"
proof -
  have 1: "exec ResolveDependencies init
      = \<lparr>DIContainer_container = Some 0, heap = [Container Transient registered]\<rparr>"
    by (simp add: resolveDependencies_unset init_def)
  have 2: "exec CreateApp \<lparr>DIContainer_container = Some 0, heap = [Container Transient registered]\<rparr>
      = snd (createApp init)"
    using createApp_unset [of init] by (simp add: init_def)
  have 3: "snd (index \<lparr>listen_fault = None\<rparr> init) = snd (createApp init)"
    by (simp add: index_def createApp_init)
  show ?thesis
    unfolding 1 2 3
    by (simp add: createApp_init registry_def lookup_def registered_def contextBinding_def)
qed

text \<open>
  C10, as amended. \<^verbatim>\<open>registerDependencies\<close> runs at most once in a process, so that
  \<^verbatim>\<open>DIContainer\<close> adds, removes or rebinds nothing after the first resolution. Take any
  run of a fresh process after which the static field is set. The first four bindings of
  the registry are then exactly those of one registration, and whatever follows them is
  bound under the server's two identifiers. A call of \<^verbatim>\<open>resolveDependencies\<close> in that state
  returns the handle and the state unchanged, whereas \<^verbatim>\<open>registerDependencies\<close> never leaves
  a state unchanged (each of its invocations adds four bindings), so the call did not
  invoke it. However the run continues, the field stays set to the same handle and the
  same holds of the registry.
\<close>

theorem registerDependencies_runs_once:
  assumes "DIContainer_container (run ops init) = Some c"
  shows "take 4 (registry (run ops init)) = registered
       \<and> list_all (\<lambda>b. serviceIdentifier b = TYPE_Controller \<or> serviceIdentifier b = TYPE_HttpContext)
           (drop 4 (registry (run ops init)))
       \<and> resolveDependencies (run ops init) = Inr (c, run ops init)
       \<and> registerDependencies (run ops init) \<noteq> Inr (run ops init)
       \<and> DIContainer_container (run (ops @ later) init) = Some c
       \<and> take 4 (registry (run (ops @ later) init)) = registered
       \<and> list_all (\<lambda>b. serviceIdentifier b = TYPE_Controller \<or> serviceIdentifier b = TYPE_HttpContext)
           (drop 4 (registry (run (ops @ later) init)))"
proof -
  from run_init [of ops] assms have w: "wired 0 (run ops init)"
    by (auto simp: init_def)
  with assms have c: "c = 0" by (simp add: wired_def)
  have "run (ops @ later) init = run later (run ops init)" by (simp add: run_def)
  with run_wired [OF w, of later] have w': "wired 0 (run (ops @ later) init)" by simp
  have "registerDependencies (run ops init) \<noteq> Inr (run ops init)"
    using registerDependencies_adds_four [of "run ops init" "run ops init"] by auto
  with registry_wired [OF w] registry_wired [OF w'] field_wired [OF w] field_wired [OF w'] c
  show ?thesis
    by (simp add: resolveDependencies_set)
qed

theorem registerDependencies_runs_once_witness:
  "DIContainer_container (run [ResolveDependencies] init) = Some 0
   \<and> take 4 (registry (run [ResolveDependencies] init)) = registered
   \<and> resolveDependencies (run [ResolveDependencies] init)
       = Inr (0, run [ResolveDependencies] init)
   \<and> take 4 (registry (run ([ResolveDependencies] @ [CreateApp, Get TYPES_Warrior,
                               ResolveDependencies]) init))
       = registered"
proof -
  have h: "DIContainer_container (run [ResolveDependencies] init) = Some 0"
    by (simp add: run_def resolveDependencies_unset init_def)
  from registerDependencies_runs_once
         [OF h, of "[CreateApp, Get TYPES_Warrior, ResolveDependencies]"] h
  show ?thesis by simp
qed

section \<open>The warrior and its controller\<close>

text \<open>
  C6. For every \<^verbatim>\<open>Ninja\<close>, in every store, \<^verbatim>\<open>fight()\<close> returns exactly what \<^verbatim>\<open>hit()\<close> returns
  on the weapon its \<^verbatim>\<open>_katana\<close> refers to, and \<^verbatim>\<open>sneak()\<close> exactly what \<^verbatim>\<open>throw()\<close> returns
  on the throwable weapon its \<^verbatim>\<open>_shuriken\<close> refers to: the results are equal as they
  stand, so the methods neither branch nor fail on their own.
\<close>

theorem Ninja_delegates:
  assumes "lookup h a = Some (NinjaObject katana shuriken)"
  shows "Warrior_fight h a = Weapon_hit h katana
       \<and> Warrior_sneak h a = ThrowableWeapon_throw h shuriken"
  using assms by (simp add: Warrior_fight_def Warrior_sneak_def Ninja_fight_def Ninja_sneak_def)

theorem Ninja_delegates_witness:
  "lookup [KatanaObject, ShurikenObject, NinjaObject 0 1] 2 = Some (NinjaObject 0 1)
   \<and> Warrior_fight [KatanaObject, ShurikenObject, NinjaObject 0 1] 2 = Inr ''cut!''
   \<and> Warrior_sneak [KatanaObject, ShurikenObject, NinjaObject 0 1] 2 = Inr ''hit!''"
proof -
  have l: "lookup [KatanaObject, ShurikenObject, NinjaObject 0 1] 2 = Some (NinjaObject 0 1)"
    by (simp add: lookup_def)
  from Ninja_delegates [OF l] l show ?thesis
    by (simp add: Weapon_hit_def ThrowableWeapon_throw_def Katana_hit_def Shuriken_throw_def
          lookup_def)
qed

text \<open>
  C9. Whenever the container has built a \<^verbatim>\<open>WarriorController\<close>, the object holds a
  reference to the warrior that was injected, \<^verbatim>\<open>fight()\<close> and \<^verbatim>\<open>sneak()\<close> return exactly what
  that warrior's \<^verbatim>\<open>fight()\<close> and \<^verbatim>\<open>sneak()\<close> return, and the response to the request is that
  string, sent as it is (or the error, had the warrior raised one).
\<close>

theorem WarriorController_returns_verbatim:
  assumes "instantiate c [] WarriorController h = Inr (a, h1)"
  shows "\<exists>warrior. lookup h1 a = Some (WarriorControllerObject warrior)
           \<and> invoke h1 a fight = Warrior_fight h1 warrior
           \<and> invoke h1 a sneak = Warrior_sneak h1 warrior
           \<and> handler c WarriorController fight h =
               (case Warrior_fight h1 warrior of
                  Inl e \<Rightarrow> (InternalServerError e, h1)
                | Inr v \<Rightarrow> (Send v, h1))
           \<and> handler c WarriorController sneak h =
               (case Warrior_sneak h1 warrior of
                  Inl e \<Rightarrow> (InternalServerError e, h1)
                | Inr v \<Rightarrow> (Send v, h1))"
proof -
  from assms obtain warrior h0
    where r: "resolve c [] TYPES_Warrior h = Inr (warrior, h0)"
      and a: "a = length h0" and h1: "h1 = h0 @ [WarriorControllerObject warrior]"
    by (auto simp add: alloc_def simp del: resolve.simps split: sum.splits)
  have l: "lookup h1 a = Some (WarriorControllerObject warrior)"
    by (simp add: a h1 lookup_def)
  have f: "invoke h1 a fight = Warrior_fight h1 warrior"
    and s: "invoke h1 a sneak = Warrior_sneak h1 warrior"
    by (simp_all add: invoke_def l WarriorController_fight_def WarriorController_sneak_def)
  have "handler c WarriorController fight h =
               (case Warrior_fight h1 warrior of
                  Inl e \<Rightarrow> (InternalServerError e, h1)
                | Inr v \<Rightarrow> (Send v, h1))"
    unfolding handler_def assms by (simp add: f)
  moreover have "handler c WarriorController sneak h =
               (case Warrior_sneak h1 warrior of
                  Inl e \<Rightarrow> (InternalServerError e, h1)
                | Inr v \<Rightarrow> (Send v, h1))"
    unfolding handler_def assms by (simp add: s)
  ultimately show ?thesis using l f s by blast
qed

theorem WarriorController_returns_verbatim_witness:
  "instantiate 0 [] WarriorController [Container Transient registered] =
     Inr (4, [Container Transient registered, KatanaObject, ShurikenObject, NinjaObject 1 2,
              WarriorControllerObject 3])
   \<and> (\<exists>warrior.
         lookup [Container Transient registered, KatanaObject, ShurikenObject, NinjaObject 1 2,
                 WarriorControllerObject 3] 4 = Some (WarriorControllerObject warrior)
         \<and> invoke [Container Transient registered, KatanaObject, ShurikenObject, NinjaObject 1 2,
                 WarriorControllerObject 3] 4 fight
            = Warrior_fight [Container Transient registered, KatanaObject, ShurikenObject,
                 NinjaObject 1 2, WarriorControllerObject 3] warrior)"
proof -
  have w: "wiredStore [Container Transient registered] 0"
    using wired_fresh [of "[]"] by (simp add: wired_def)
  have i: "instantiate 0 [] WarriorController [Container Transient registered] =
     Inr (4, [Container Transient registered, KatanaObject, ShurikenObject, NinjaObject 1 2,
              WarriorControllerObject 3])"
    using instantiate_WarriorController [OF w, of "[]"] by simp
  from WarriorController_returns_verbatim [OF i] i show ?thesis by blast
qed

section \<open>Startup and the root route\<close>

text \<open>
  C7. The claim is that a failure to start, of the listener as of the creation of the
  application, is caught at the top level, logged, and ends the process with a nonzero
  exit code. When the port cannot be bound, in a fresh process, nothing of this happens:
  the program logs nothing, does not call \<^verbatim>\<open>process.exit\<close> and is left with an \<^verbatim>\<open>error\<close>
  event that nothing handles. Creating the application does not fail in a fresh process;
  where it does fail (here, because the process has created it before), the \<^verbatim>\<open>catch\<close> does
  what the claim says, logging the error and exiting with code 1. With the port free the
  process logs that the server is running and listens, and no request is then answered
  with a fault of a handler.
\<close>

theorem listener_failure_is_not_caught:
  "fst (index \<lparr>listen_fault = Some e\<rparr> init)
     = \<lparr>console = [], exitCode = None, listening = None, unhandled = Some e\<rparr>
   \<and> fst (createApp init) = Inr 0
   \<and> fst (index \<lparr>listen_fault = None\<rparr> init)
     = \<lparr>console = [Log ''Server is running on http://localhost:3000''], exitCode = None,
        listening = Some (0, PORT), unhandled = None\<rparr>
   \<and> fst (index env (snd (createApp init)))
     = \<lparr>console = [Error ''Error starting server:'' (DuplicatedControllerName ''InitController'')],
        exitCode = Some 1, listening = None, unhandled = None\<rparr>
   \<and> fst (serve 0 req (run ops (snd (index \<lparr>listen_fault = None\<rparr> init))))
       \<noteq> InternalServerError e'"
proof -
  have "fst (serve 0 req (run ops (snd (index \<lparr>listen_fault = None\<rparr> init))))
       \<noteq> InternalServerError e'"
    by (rule serve_no_fault [OF run_wired [OF wired_started]])
  moreover
  have "fst (index env (snd (createApp init))) = failed (DuplicatedControllerName ''InitController'')"
    using createApp_twice
    by (cases "createApp (snd (createApp init))") (simp add: index_def)
  ultimately show ?thesis
    by (simp add: index_def createApp_init failed_def)
qed




end
